theory Spec2Isabelle
  imports Main "HOL-Library.Sublist" "HOL-Library.AList" "HOL-Library.Word"
begin

section \<open>Python values and string primitives\<close>

text \<open>
  Text is a list of characters. The Python functions the two applications call on
  \<^verbatim>\<open>str\<close> are written out here: \<^verbatim>\<open>startswith\<close>, \<^verbatim>\<open>endswith\<close>, \<^verbatim>\<open>strip\<close>,
  \<^verbatim>\<open>split\<close>, \<^verbatim>\<open>in\<close>, \<^verbatim>\<open>replace\<close>, slicing, and \<^verbatim>\<open>str\<close> of an integer.
\<close>

text \<open>
  The values that \<^verbatim>\<open>json.loads\<close> returns and that the dictionaries of the program
  hold: \<^verbatim>\<open>None\<close>, \<^verbatim>\<open>bool\<close>, \<^verbatim>\<open>int\<close>, \<^verbatim>\<open>float\<close> (the 64 bits of the double), \<^verbatim>\<open>str\<close>,
  \<^verbatim>\<open>list\<close> and \<^verbatim>\<open>dict\<close> with string keys (insertion ordered, as an association list).
\<close>

type_synonym py_float = "64 word"

datatype pyval =
    PNone
  | PBool bool
  | PInt int
  | PFloat py_float
  | PStr string
  | PList "pyval list"
  | PDict "(string \<times> pyval) list"

definition startswith :: "string \<Rightarrow> string \<Rightarrow> bool" where
  "startswith s p = prefix p s"

definition endswith :: "string \<Rightarrow> string \<Rightarrow> bool" where
  "endswith s p = suffix p s"

text \<open>
  \<^verbatim>\<open>str.isspace\<close> on one character, which is also what \<^verbatim>\<open>\s\<close> matches in a \<^verbatim>\<open>str\<close>
  pattern: for code points below 256 these are 9-13, 28-32, 133 and 160.
\<close>

definition is_space :: "char \<Rightarrow> bool" where
  "is_space c =
     (let n = (of_char c :: nat)
      in (9 \<le> n \<and> n \<le> 13) \<or> (28 \<le> n \<and> n \<le> 32) \<or> n = 133 \<or> n = 160)"

definition strip :: "string \<Rightarrow> string" where
  "strip s = rev (dropWhile is_space (rev (dropWhile is_space s)))"

text \<open>\<^verbatim>\<open>s[a:-1]\<close>: from index \<open>a\<close> up to, not including, the last character.\<close>

definition slice_to_last :: "nat \<Rightarrow> string \<Rightarrow> string" where
  "slice_to_last a s = drop a (butlast s)"

text \<open>\<^verbatim>\<open>sub in s\<close> for strings.\<close>

fun contains :: "string \<Rightarrow> string \<Rightarrow> bool" where
  "contains [] sub = (sub = [])"
| "contains (c # cs) sub = (prefix sub (c # cs) \<or> contains cs sub)"

text \<open>\<^verbatim>\<open>s.split(',')\<close>: the fields between commas, at least one field.\<close>

fun split_comma :: "string \<Rightarrow> string list" where
  "split_comma [] = [[]]"
| "split_comma (c # cs) =
     (if c = CHR '','' then [] # split_comma cs
      else (case split_comma cs of
              [] \<Rightarrow> [[c]]
            | f # fs \<Rightarrow> (c # f) # fs))"

text \<open>
  \<^verbatim>\<open>s.split(',', 1)\<close> when \<^verbatim>\<open>',' in s\<close>: the text before the first comma and the text
  after it. The source unpacks the result into two names only under that test.
\<close>

definition split_comma_once :: "string \<Rightarrow> string \<times> string" where
  "split_comma_once s =
     (takeWhile (\<lambda>c. c \<noteq> CHR '','') s, drop 1 (dropWhile (\<lambda>c. c \<noteq> CHR '','') s))"

text \<open>
  \<^verbatim>\<open>s.replace(old, new)\<close>: every non-overlapping occurrence of \<open>old\<close>, found from the
  left, becomes \<open>new\<close>. With an empty \<open>old\<close> Python puts \<open>new\<close> before every character
  and at the end.
\<close>

function replace :: "string \<Rightarrow> string \<Rightarrow> string \<Rightarrow> string" where
  "replace [] old new = (if old = [] then new else [])"
| "replace (c # cs) old new =
     (if old = [] then new @ c # replace cs old new
      else if prefix old (c # cs) then new @ replace (drop (length old) (c # cs)) old new
      else c # replace cs old new)"
  by pat_completeness auto
termination
  by (relation "measure (\<lambda>(s, old, new). length s)") (auto simp: neq_Nil_conv)

text \<open>\<^verbatim>\<open>str(n)\<close> for a non-negative integer: its decimal digits.\<close>

definition digit_char :: "nat \<Rightarrow> char" where
  "digit_char d = char_of (48 + d)"

fun str_nat :: "nat \<Rightarrow> string" where
  "str_nat n = (if n < 10 then [digit_char n] else str_nat (n div 10) @ [digit_char (n mod 10)])"

declare str_nat.simps [simp del]

definition str_int :: "int \<Rightarrow> string" where
  "str_int i = (if i < 0 then CHR ''-'' # str_nat (nat (- i)) else str_nat (nat i))"

text \<open>
  A dictionary is an association list in insertion order with one entry per key;
  \<^verbatim>\<open>d[k] = v\<close> replaces the value of an existing key in place and appends a new key.
\<close>

definition dict_set :: "(string \<times> 'v) list \<Rightarrow> string \<Rightarrow> 'v \<Rightarrow> (string \<times> 'v) list" where
  "dict_set d k v = AList.update k v d"

definition dict_get :: "(string \<times> 'v) list \<Rightarrow> string \<Rightarrow> 'v option" where
  "dict_get d k = map_of d k"

section \<open>The environment: JSON decoding, \<^verbatim>\<open>str\<close> of other values, the file system\<close>

text \<open>
  What the program obtains from outside its own code is a parameter of the model.
  \<^item> \<open>json_loads\<close>: \<^verbatim>\<open>json.loads\<close>: the decoded value, or \<open>Inl\<close> of the exception it
    raises, which is \<^verbatim>\<open>json.JSONDecodeError\<close> for a text that is not JSON, \<^verbatim>\<open>ValueError\<close>
    for an integer literal with more digits than the interpreter converts, and
    \<^verbatim>\<open>RecursionError\<close> for arrays or objects nested too deeply.
  \<^item> \<open>repr_other\<close>: \<^verbatim>\<open>str(v)\<close> for a float, a list or a dictionary.
  \<^item> \<open>read_file\<close>: \<^verbatim>\<open>open(path, 'r').read()\<close>; \<open>None\<close> when it raises.
  \<^item> \<open>walk\<close>: the \<open>(root, files)\<close> pairs of \<^verbatim>\<open>os.walk\<close>, in its order.
  \<^item> \<open>path_exists\<close>, \<open>isdir\<close>, \<open>isfile\<close>, \<open>listdir\<close>: the functions of \<^verbatim>\<open>os\<close> and
    \<^verbatim>\<open>os.path\<close> of these names.
\<close>

datatype json_exception = JSONDecodeError | ValueError | RecursionError

record env =
  json_loads :: "string \<Rightarrow> json_exception + pyval"
  repr_other :: "pyval \<Rightarrow> string"
  read_file :: "string \<Rightarrow> string option"
  walk :: "string \<Rightarrow> (string \<times> string list) list"
  path_exists :: "string \<Rightarrow> bool"
  isdir :: "string \<Rightarrow> bool"
  isfile :: "string \<Rightarrow> bool"
  listdir :: "string \<Rightarrow> string list"

text \<open>\<^verbatim>\<open>str(v)\<close>: a string is itself.\<close>

definition py_str :: "env \<Rightarrow> pyval \<Rightarrow> string" where
  "py_str e v =
     (case v of
        PStr s \<Rightarrow> s
      | PNone \<Rightarrow> ''None''
      | PBool b \<Rightarrow> (if b then ''True'' else ''False'')
      | PInt i \<Rightarrow> str_int i
      | _ \<Rightarrow> repr_other e v)"

text \<open>\<^verbatim>\<open>os.path.join(a, b)\<close> on a POSIX system.\<close>

definition path_join :: "string \<Rightarrow> string \<Rightarrow> string" where
  "path_join a b =
     (if startswith b ''/'' then b
      else if a = [] \<or> endswith a ''/'' then a @ b
      else a @ ''/'' @ b)"

section \<open>The definition parser\<close>

text \<open>
  The two applications share the parser, the expander and the renderer up to the
  branches that only \<^verbatim>\<open>best_of_n.py\<close> has; \<open>app\<close> says which file is meant.
\<close>

datatype app = App3 | Best_of_n

text \<open>
  A parsed value: a plain string, or one of the dictionaries the parser builds,
  \<^verbatim>\<open>{'type': 'file', 'path': p}\<close>, \<^verbatim>\<open>{'type': 'dir', 'path': p, 'recursive': r}\<close>,
  \<^verbatim>\<open>{'type': 'list', 'elements': xs}\<close>, \<^verbatim>\<open>{'type': 'results', 'var_name': n}\<close> and
  \<^verbatim>\<open>{'type': 'initial_prompt'}\<close>.
\<close>

datatype var_spec =
    Plain string
  | File_spec string
  | Dir_spec string bool
  | List_spec "pyval list"
  | Results_spec string
  | Initial_prompt_spec

definition name_start :: "char \<Rightarrow> bool" where
  "name_start c =
     (let n = (of_char c :: nat)
      in (65 \<le> n \<and> n \<le> 90) \<or> (97 \<le> n \<and> n \<le> 122) \<or> n = 95)"

definition name_char :: "char \<Rightarrow> bool" where
  "name_char c = (name_start c \<or> (48 \<le> (of_char c :: nat) \<and> (of_char c :: nat) \<le> 57))"

definition not_comma :: "char \<Rightarrow> bool" where
  "not_comma c = (c \<noteq> CHR '','')"

text \<open>
  One attempt of the pattern
  \<^verbatim>\<open>([a-zA-Z_][a-zA-Z0-9_]*)\s*=\s*([^,]+)(?:,|$)\<close>
  at the head of \<open>s\<close>: group 1, group 2 and the text after the match. Every
  quantifier is greedy. The name is the longest run of name characters (a shorter
  one is followed by a name character, which is neither a space nor \<^verbatim>\<open>=\<close>). After
  \<^verbatim>\<open>=\<close>, \<^verbatim>\<open>\s*\<close> takes the whole run of spaces and group 2 the run of characters other
  than a comma that follows, which ends at a comma or at the end of the text; when
  that run is empty, \<^verbatim>\<open>\s*\<close> gives its last space back to group 2, and with no space to
  give back there is no match.
\<close>

definition match_definition :: "string \<Rightarrow> (string \<times> string \<times> string) option" where
  "match_definition s =
     (case s of
        [] \<Rightarrow> None
      | c # cs \<Rightarrow>
          if \<not> name_start c then None
          else
            let g1 = c # takeWhile name_char cs;
                r2 = dropWhile is_space (dropWhile name_char cs)
            in (case r2 of
                  [] \<Rightarrow> None
                | eq # r3 \<Rightarrow>
                    if eq \<noteq> CHR ''='' then None
                    else
                      let ws = takeWhile is_space r3;
                          r4 = dropWhile is_space r3;
                          v = takeWhile not_comma r4;
                          rest = drop 1 (dropWhile not_comma r4)
                      in if v \<noteq> [] then Some (g1, v, rest)
                         else if ws \<noteq> [] then Some (g1, [last ws], rest)
                         else None))"

lemma match_definition_shorter:
  assumes "match_definition s = Some (g1, g2, rest)"
  shows "length rest < length s"
proof (cases s)
  case Nil
  with assms show ?thesis by (simp add: match_definition_def)
next
  case (Cons c cs)
  have tail: "length (drop 1 (dropWhile not_comma (dropWhile is_space x))) \<le> length x" for x
    by (metis diff_le_self length_drop length_dropWhile_le order_trans)
  have "length (dropWhile is_space (dropWhile name_char cs)) \<le> length cs"
    by (meson length_dropWhile_le order_trans)
  moreover from assms Cons obtain r3
    where "dropWhile is_space (dropWhile name_char cs) = CHR ''='' # r3"
      and "rest = drop 1 (dropWhile not_comma (dropWhile is_space r3))"
    by (auto simp: match_definition_def Let_def split: if_splits list.splits)
  ultimately show ?thesis
    using tail [of r3] Cons by simp
qed

text \<open>
  \<^verbatim>\<open>re.finditer\<close>: the matches from left to right, each search starting where the
  previous match ended; where the pattern does not match, the search moves one
  character on.
\<close>

function finditer_definitions :: "string \<Rightarrow> (string \<times> string) list" where
  "finditer_definitions [] = []"
| "finditer_definitions (c # cs) =
     (case match_definition (c # cs) of
        None \<Rightarrow> finditer_definitions cs
      | Some (g1, g2, rest) \<Rightarrow> (g1, g2) # finditer_definitions rest)"
  by pat_completeness auto
termination
  by (relation "measure length") (auto dest: match_definition_shorter)

definition double_quote :: string where
  "double_quote = [CHR 0x22]"

definition single_quote :: string where
  "single_quote = [CHR 0x27]"

text \<open>The branch for a value that does not start with \<^verbatim>\<open>$$\<close>: one pair of quotes is removed.\<close>

definition strip_quotes :: "string \<Rightarrow> string" where
  "strip_quotes var_value =
     (if (startswith var_value double_quote \<and> endswith var_value double_quote) \<or>
         (startswith var_value single_quote \<and> endswith var_value single_quote)
      then slice_to_last 1 var_value
      else var_value)"

text \<open>
  The \<^verbatim>\<open>if\<close>/\<^verbatim>\<open>elif\<close> chain under \<^verbatim>\<open>var_value.startswith('$$')\<close>. It has no final
  \<^verbatim>\<open>else\<close>: when no branch applies nothing is assigned, which is \<open>Inr None\<close> here. The
  last two branches exist in \<^verbatim>\<open>best_of_n.py\<close> only. The handler around \<^verbatim>\<open>json.loads\<close> is
  \<^verbatim>\<open>except json.JSONDecodeError\<close>: any other exception leaves the parser, which is
  \<open>Inl\<close> of it.
\<close>

definition parse_special :: "app \<Rightarrow> env \<Rightarrow> string \<Rightarrow> json_exception + var_spec option" where
  "parse_special a e var_value =
     (if startswith var_value ''$$file('' \<and> endswith var_value '')'' then
        Inr (Some (File_spec (strip (slice_to_last 7 var_value))))
      else if startswith var_value ''$$dir('' \<and> endswith var_value '')'' then
        (let dir_content = strip (slice_to_last 6 var_value)
         in if contains dir_content '','' then
              (case split_comma_once dir_content of
                 (dir_path, params) \<Rightarrow>
                   Inr (Some (Dir_spec (strip dir_path) (contains params ''recursive=True''))))
            else Inr (Some (Dir_spec dir_content False)))
      else if startswith var_value ''$$list('' \<and> endswith var_value '')'' then
        (let list_content = strip (slice_to_last 7 var_value)
         in (case json_loads e list_content of
               Inr (PList list_elements) \<Rightarrow> Inr (Some (List_spec list_elements))
             | Inr _ \<Rightarrow> Inr (Some (List_spec [PStr list_content]))
             | Inl JSONDecodeError \<Rightarrow>
                 Inr (Some (List_spec (map (\<lambda>elem. PStr (strip elem)) (split_comma list_content))))
             | Inl ex \<Rightarrow> Inl ex))
      else if a = Best_of_n \<and> startswith var_value ''$$results('' \<and> endswith var_value '')'' then
        Inr (Some (Results_spec (strip (slice_to_last 10 var_value))))
      else if a = Best_of_n \<and> startswith var_value ''$$initial_prompt('' \<and> endswith var_value '')''
      then Inr (Some Initial_prompt_spec)
      else Inr None)"

definition parse_value :: "app \<Rightarrow> env \<Rightarrow> string \<Rightarrow> json_exception + var_spec option" where
  "parse_value a e var_value =
     (if startswith var_value ''$$'' then parse_special a e var_value
      else Inr (Some (Plain (strip_quotes var_value))))"

text \<open>The body of the loop over the matches: the mapping after one match, or the exception.\<close>

definition parse_match :: "app \<Rightarrow> env \<Rightarrow> string \<times> string \<Rightarrow> (string \<times> var_spec) list
    \<Rightarrow> json_exception + (string \<times> var_spec) list" where
  "parse_match a e m variables =
     (case m of
        (g1, g2) \<Rightarrow>
          (case parse_value a e (strip g2) of
             Inl ex \<Rightarrow> Inl ex
           | Inr None \<Rightarrow> Inr variables
           | Inr (Some spec) \<Rightarrow> Inr (dict_set variables (strip g1) spec)))"

text \<open>The loop: an exception ends it and leaves the function.\<close>

fun parse_matches :: "app \<Rightarrow> env \<Rightarrow> (string \<times> string) list \<Rightarrow> (string \<times> var_spec) list
    \<Rightarrow> json_exception + (string \<times> var_spec) list" where
  "parse_matches a e [] variables = Inr variables"
| "parse_matches a e (m # ms) variables =
     (case parse_match a e m variables of
        Inl ex \<Rightarrow> Inl ex
      | Inr variables' \<Rightarrow> parse_matches a e ms variables')"

definition parse_variable_definitions :: "app \<Rightarrow> env \<Rightarrow> string
    \<Rightarrow> json_exception + (string \<times> var_spec) list" where
  "parse_variable_definitions a e var_definitions =
     parse_matches a e (finditer_definitions var_definitions) []"

section \<open>The combination expander\<close>

text \<open>
  The file paths of a directory reference: with \<open>recursive\<close> every file that
  \<^verbatim>\<open>os.walk\<close> reports, joined to its root; otherwise the regular files directly inside
  an existing directory.
\<close>

definition file_paths :: "env \<Rightarrow> string \<Rightarrow> bool \<Rightarrow> string list" where
  "file_paths e base_path recursive =
     (if recursive then
        concat (map (\<lambda>(root, files). map (path_join root) files) (walk e base_path))
      else if path_exists e base_path \<and> isdir e base_path then
        map (path_join base_path)
          (filter (\<lambda>f. isfile e (path_join base_path f)) (listdir e base_path))
      else [])"

text \<open>
  Reading the files: \<open>file_contents\<close> and \<open>file_path_display\<close> grow together, one entry
  per file that could be read, so they are one list of pairs (content, path). A file
  that raises is skipped.
\<close>

definition read_files :: "env \<Rightarrow> string list \<Rightarrow> (string \<times> string) list" where
  "read_files e paths =
     List.map_filter (\<lambda>path. map_option (\<lambda>content. (content, path)) (read_file e path)) paths"

definition dir_contents :: "env \<Rightarrow> string \<Rightarrow> bool \<Rightarrow> (string \<times> string) list" where
  "dir_contents e base_path recursive = read_files e (file_paths e base_path recursive)"

text \<open>
  An entry of \<open>iterative_vars\<close> is \<^verbatim>\<open>{"values": vs, "paths": ps}\<close> with two lists of one
  length, here the list of the pairs \<open>(vs[i], ps[i])\<close>.
\<close>

type_synonym iter_data = "(pyval \<times> pyval) list"

type_synonym combination = "(string \<times> pyval) list"

definition results_marker :: "string \<Rightarrow> pyval" where
  "results_marker var_name = PDict [(''type'', PStr ''results''), (''var_name'', PStr var_name)]"

text \<open>
  The body of the first loop of \<^verbatim>\<open>expand_variables\<close>, on the pair
  \<open>(iterative_vars, fixed_vars)\<close>. The branch for \<^verbatim>\<open>'results'\<close> is in \<^verbatim>\<open>best_of_n.py\<close>
  only, and neither file has a branch for \<^verbatim>\<open>'initial_prompt'\<close>.
\<close>

definition collect_var :: "app \<Rightarrow> env \<Rightarrow> string \<times> var_spec
    \<Rightarrow> (string \<times> iter_data) list \<times> combination \<Rightarrow> (string \<times> iter_data) list \<times> combination" where
  "collect_var a e entry acc =
     (case (entry, acc) of
        ((var_name, var_value), (iterative_vars, fixed_vars)) \<Rightarrow>
          (case var_value of
             File_spec path \<Rightarrow>
               (iterative_vars,
                dict_set fixed_vars var_name
                  (PStr (case read_file e path of
                           Some content \<Rightarrow> content
                         | None \<Rightarrow> ''ERROR: Could not read file '' @ path)))
           | Dir_spec base_path recursive \<Rightarrow>
               (let file_contents = dir_contents e base_path recursive
                in if file_contents \<noteq> [] then
                     (dict_set iterative_vars var_name
                        (map (\<lambda>(content, path). (PStr content, PStr path)) file_contents),
                      fixed_vars)
                   else
                     (iterative_vars,
                      dict_set fixed_vars var_name (PStr (''No files found in '' @ base_path))))
           | List_spec elements \<Rightarrow>
               (dict_set iterative_vars var_name (map (\<lambda>x. (x, x)) elements), fixed_vars)
           | Results_spec name \<Rightarrow>
               (if a = Best_of_n
                then (iterative_vars, dict_set fixed_vars var_name (results_marker name))
                else (iterative_vars, fixed_vars))
           | Initial_prompt_spec \<Rightarrow> (iterative_vars, fixed_vars)
           | Plain s \<Rightarrow> (iterative_vars, dict_set fixed_vars var_name (PStr s))))"

text \<open>
  The second loop: every combination so far, in order, is extended with every value of
  the variable, in order, and with the companion entry \<^verbatim>\<open>name_path\<close>.
\<close>

definition add_iterative :: "string \<times> iter_data \<Rightarrow> combination list \<Rightarrow> combination list" where
  "add_iterative entry combinations =
     (case entry of
        (var_name, var_data) \<Rightarrow>
          concat (map (\<lambda>combo.
            map (\<lambda>(v, path). dict_set (dict_set combo var_name v) (var_name @ ''_path'') path)
              var_data) combinations))"

definition add_fixed :: "combination \<Rightarrow> combination \<Rightarrow> combination" where
  "add_fixed fixed_vars combo = fold (\<lambda>(var_name, v) c. dict_set c var_name v) fixed_vars combo"

definition expand_variables :: "app \<Rightarrow> env \<Rightarrow> (string \<times> var_spec) list \<Rightarrow> combination list" where
  "expand_variables a e variables =
     (case fold (collect_var a e) variables ([], []) of
        (iterative_vars, fixed_vars) \<Rightarrow>
          map (add_fixed fixed_vars) (fold add_iterative iterative_vars [[]]))"

section \<open>The template renderer\<close>

definition placeholder :: "string \<Rightarrow> string" where
  "placeholder var_name = ''{{'' @ var_name @ ''}}''"

definition is_dict :: "pyval \<Rightarrow> bool" where
  "is_dict v = (case v of PDict _ \<Rightarrow> True | _ \<Rightarrow> False)"

text \<open>
  Which entries of a combination the first loop of \<^verbatim>\<open>render_template\<close> substitutes:
  not the \<^verbatim>\<open>_path\<close> companions and, in \<^verbatim>\<open>best_of_n.py\<close>, not a dictionary.
\<close>

definition substituted :: "app \<Rightarrow> string \<times> pyval \<Rightarrow> bool" where
  "substituted a entry =
     (case entry of
        (var_name, v) \<Rightarrow> \<not> endswith var_name ''_path'' \<and> (a = App3 \<or> \<not> is_dict v))"

definition not_close :: "char \<Rightarrow> bool" where
  "not_close c = (c \<noteq> CHR ''}'')"

text \<open>
  One attempt of the pattern \<^verbatim>\<open>{{([^}]+)}}\<close> at the head of \<open>s\<close>: the group and the text
  after the match. The group is the longest run of characters other than \<^verbatim>\<open>}\<close>; it
  must not be empty and \<^verbatim>\<open>}}\<close> must follow it (a shorter run is followed by a
  character that is not \<^verbatim>\<open>}\<close>).
\<close>

definition match_placeholder :: "string \<Rightarrow> (string \<times> string) option" where
  "match_placeholder s =
     (if prefix ''{{'' s then
        (let body = drop 2 s;
             var = takeWhile not_close body;
             rest = dropWhile not_close body
         in if var \<noteq> [] \<and> prefix ''}}'' rest then Some (var, drop 2 rest) else None)
      else None)"

lemma match_placeholder_shorter:
  assumes "match_placeholder s = Some (var, rest)"
  shows "length rest < length s"
proof -
  from assms have p: "prefix ''{{'' s"
    and rest: "rest = drop 2 (dropWhile not_close (drop 2 s))"
    by (auto simp: match_placeholder_def Let_def split: if_splits)
  from p have "2 \<le> length s"
    by (auto simp: prefix_def)
  moreover have "length rest \<le> length s - 2"
    unfolding rest
    by (metis diff_le_self length_drop length_dropWhile_le order_trans)
  ultimately show ?thesis by simp
qed

text \<open>\<^verbatim>\<open>re.findall\<close> with that pattern: the groups of the matches, from left to right.\<close>

function findall_placeholders :: "string \<Rightarrow> string list" where
  "findall_placeholders [] = []"
| "findall_placeholders (c # cs) =
     (case match_placeholder (c # cs) of
        None \<Rightarrow> findall_placeholders cs
      | Some (var, rest) \<Rightarrow> var # findall_placeholders rest)"
  by pat_completeness auto
termination
  by (relation "measure length") (auto dest: match_placeholder_shorter)

definition substitute_var :: "app \<Rightarrow> env \<Rightarrow> string \<times> pyval \<Rightarrow> string \<Rightarrow> string" where
  "substitute_var a e entry result =
     (if substituted a entry then replace result (placeholder (fst entry)) (py_str e (snd entry))
      else result)"

definition mark_undefined :: "string \<Rightarrow> string \<Rightarrow> string" where
  "mark_undefined var result = replace result (placeholder var) (''UNDEFINED_VARIABLE_'' @ var)"

definition render_template :: "app \<Rightarrow> env \<Rightarrow> string \<Rightarrow> combination \<Rightarrow> string" where
  "render_template a e template variables =
     (let result = fold (substitute_var a e) variables template
      in fold mark_undefined (findall_placeholders result) result)"

section \<open>The special variable resolver\<close>

text \<open>
  The string built for a \<^verbatim>\<open>'results'\<close> variable: one block per output, numbered by
  \<^verbatim>\<open>enumerate(outputs, 1)\<close>.
\<close>

fun xml_outputs :: "string \<Rightarrow> nat \<Rightarrow> string list \<Rightarrow> string" where
  "xml_outputs xml_var_name i [] = []"
| "xml_outputs xml_var_name i (output # outputs) =
     ''<'' @ xml_var_name @ str_nat i @ ''>\<newline>'' @ output @ ''\<newline></'' @ xml_var_name @ str_nat i
       @ ''>\<newline>'' @ xml_outputs xml_var_name (Suc i) outputs"

definition resolve_special :: "string \<Rightarrow> string list \<Rightarrow> string \<times> var_spec \<Rightarrow> string \<Rightarrow> string" where
  "resolve_special initial_prompt outputs entry result =
     (case entry of
        (var_name, Results_spec xml_var_name) \<Rightarrow>
          replace result (placeholder var_name) (xml_outputs xml_var_name 1 outputs)
      | (var_name, Initial_prompt_spec) \<Rightarrow> replace result (placeholder var_name) initial_prompt
      | _ \<Rightarrow> result)"

definition process_special_variables ::
    "string \<Rightarrow> (string \<times> var_spec) list \<Rightarrow> string \<Rightarrow> string list \<Rightarrow> string" where
  "process_special_variables template variables initial_prompt outputs =
     fold (resolve_special initial_prompt outputs) variables template"

section \<open>The model calls\<close>

text \<open>
  The model service is outside the program. \<open>construct\<close> is the message of the exception
  that \<^verbatim>\<open>anthropic.Anthropic(api_key=...)\<close> raises, if it raises; \<open>create k\<close> is the
  outcome of the request number \<open>k\<close> (from 0) of a run, that is of
  \<^verbatim>\<open>client.messages.create(...)\<close> followed by \<^verbatim>\<open>message.content[0].text\<close>: the text, or
  \<open>Inl\<close> of \<^verbatim>\<open>str(e)\<close> for the exception raised.
\<close>

record service =
  construct :: "string option"
  create :: "nat \<Rightarrow> string + string"

definition error_text :: "string \<Rightarrow> string" where
  "error_text msg = ''Error calling LLM: '' @ msg"

definition call_llm :: "service \<Rightarrow> nat \<Rightarrow> string" where
  "call_llm svc k =
     (case construct svc of
        Some msg \<Rightarrow> error_text msg
      | None \<Rightarrow> (case create svc k of Inl msg \<Rightarrow> error_text msg | Inr t \<Rightarrow> t))"

text \<open>
  The loop over \<open>batch_messages\<close>: \<open>k\<close> is the number of the next request, the second
  argument counts the messages left, \<open>batch_results\<close> the texts so far. The result is the
  exception that left the loop or the list of texts, with the number of requests issued.
\<close>

fun batch_loop :: "(nat \<Rightarrow> string + string) \<Rightarrow> nat \<Rightarrow> nat \<Rightarrow> string list
    \<Rightarrow> (string + string list) \<times> nat" where
  "batch_loop cr k 0 batch_results = (Inr batch_results, k)"
| "batch_loop cr k (Suc n) batch_results =
     (case cr k of
        Inl msg \<Rightarrow> (Inl msg, Suc k)
      | Inr t \<Rightarrow> batch_loop cr (Suc k) n (batch_results @ [t]))"

text \<open>
  \<^verbatim>\<open>batch_call_llm\<close>: one \<^verbatim>\<open>try\<close> around the construction of the client and the whole
  loop; the handler returns \<^verbatim>\<open>[f"Error calling LLM: {str(e)}"] * num_runs\<close>. The second
  component is the number of requests that were issued.
\<close>

definition batch_call_llm :: "service \<Rightarrow> int \<Rightarrow> string list \<times> nat" where
  "batch_call_llm svc num_runs =
     (case construct svc of
        Some msg \<Rightarrow> (replicate (nat num_runs) (error_text msg), 0)
      | None \<Rightarrow>
          (case batch_loop (create svc) 0 (nat num_runs) [] of
             (Inl msg, issued) \<Rightarrow> (replicate (nat num_runs) (error_text msg), issued)
           | (Inr batch_results, issued) \<Rightarrow> (batch_results, issued)))"

section \<open>The session logger\<close>

text \<open>
  An element of \<^verbatim>\<open>xml.etree.ElementTree\<close>: tag, attributes, text, tail and children.
\<close>

datatype element =
  Element (tag: string) (attrib: "(string \<times> string) list") (etext: "string option")
    (etail: "string option") (children: "element list")

definition leaf :: "string \<Rightarrow> string \<Rightarrow> element" where
  "leaf name txt = Element name [] (Some txt) None []"

definition append_child :: "element \<Rightarrow> element \<Rightarrow> element" where
  "append_child parent child =
     Element (tag parent) (attrib parent) (etext parent) (etail parent) (children parent @ [child])"

text \<open>
  The children of \<^verbatim>\<open>llm_parameters\<close>, the same loop in both files: every parameter but
  the one named \<^verbatim>\<open>api_key\<close>, with \<^verbatim>\<open>str\<close> of its value as text.
\<close>

definition llm_parameters_element :: "env \<Rightarrow> (string \<times> pyval) list \<Rightarrow> element" where
  "llm_parameters_element e params =
     Element ''llm_parameters'' [] None None
       (map (\<lambda>(param_name, param_value). leaf param_name (py_str e param_value))
          (filter (\<lambda>(param_name, param_value). param_name \<noteq> ''api_key'') params))"

subsection \<open>\<^verbatim>\<open>app3.py\<close>\<close>

record input_data =
  in_variables :: combination
  in_prompt :: string
  in_output :: string

record session_data =
  s_llm_params :: "(string \<times> pyval) list"
  s_inputs :: "input_data list"

definition input_element :: "env \<Rightarrow> (string \<times> pyval) list \<Rightarrow> nat \<times> input_data \<Rightarrow> element" where
  "input_element e params indexed =
     (case indexed of
        (i, d) \<Rightarrow>
          Element (''input'' @ str_nat (Suc i)) [] None None
            [Element ''variables'' [] None None
               (map (\<lambda>(var_name, var_value). leaf var_name (py_str e var_value))
                  (filter (\<lambda>(var_name, var_value). endswith var_name ''_path'') (in_variables d))
                @ [llm_parameters_element e params]),
             leaf ''prompt'' (in_prompt d),
             leaf ''output'' (in_output d)])"

definition session_element :: "env \<Rightarrow> string \<Rightarrow> session_data \<Rightarrow> element" where
  "session_element e timestamp sd =
     Element ''session'' [(''datetime'', timestamp)] None None
       (map (input_element e (s_llm_params sd)) (enumerate 0 (s_inputs sd)))"

subsection \<open>\<^verbatim>\<open>best_of_n.py\<close>\<close>

record run_data =
  run_prompt :: string
  run_output :: string

record bon_session_data =
  b_llm_params :: "(string \<times> pyval) list"
  b_num_runs :: int
  b_prompt_template :: string
  b_variables :: "(string \<times> var_spec) list"
  b_runs :: "run_data list"
  b_eval_prompt_template :: string
  b_eval_variables :: "(string \<times> var_spec) list"
  b_eval_rendered_prompt :: string
  b_eval_output :: string

definition spec_type :: "var_spec \<Rightarrow> string" where
  "spec_type var_def =
     (case var_def of
        File_spec _ \<Rightarrow> ''file''
      | Dir_spec _ _ \<Rightarrow> ''dir''
      | List_spec _ \<Rightarrow> ''list''
      | Results_spec _ \<Rightarrow> ''results''
      | Initial_prompt_spec \<Rightarrow> ''initial_prompt''
      | Plain _ \<Rightarrow> [])"

text \<open>
  A child of \<^verbatim>\<open>variables\<close> in the initial section: a plain value is the text; a
  dictionary sets \<^verbatim>\<open>type\<close>, then \<^verbatim>\<open>path\<close> and \<^verbatim>\<open>recursive\<close> when it has these keys.
\<close>

definition variable_element :: "string \<times> var_spec \<Rightarrow> element" where
  "variable_element entry =
     (case entry of
        (var_name, Plain s) \<Rightarrow> leaf var_name s
      | (var_name, File_spec path) \<Rightarrow>
          Element var_name [(''type'', ''file''), (''path'', path)] None None []
      | (var_name, Dir_spec path recursive) \<Rightarrow>
          Element var_name
            [(''type'', ''dir''), (''path'', path),
             (''recursive'', if recursive then ''True'' else ''False'')] None None []
      | (var_name, var_def) \<Rightarrow> Element var_name [(''type'', spec_type var_def)] None None [])"

text \<open>In the evaluation section: \<^verbatim>\<open>type\<close>, then \<^verbatim>\<open>var_name\<close> when the dictionary has it.\<close>

definition eval_variable_element :: "string \<times> var_spec \<Rightarrow> element" where
  "eval_variable_element entry =
     (case entry of
        (var_name, Plain s) \<Rightarrow> leaf var_name s
      | (var_name, Results_spec name) \<Rightarrow>
          Element var_name [(''type'', ''results''), (''var_name'', name)] None None []
      | (var_name, var_def) \<Rightarrow> Element var_name [(''type'', spec_type var_def)] None None [])"

definition run_element :: "nat \<times> run_data \<Rightarrow> element" where
  "run_element indexed =
     (case indexed of
        (i, r) \<Rightarrow>
          Element (''run'' @ str_nat (Suc i)) [] None None
            [leaf ''rendered_prompt'' (run_prompt r), leaf ''output'' (run_output r)])"

definition bon_session_element :: "env \<Rightarrow> string \<Rightarrow> bon_session_data \<Rightarrow> element" where
  "bon_session_element e timestamp sd =
     Element ''session'' [(''datetime'', timestamp)] None None
       [Element ''initial_prompt'' [(''num_runs'', str_int (b_num_runs sd))] None None
          [llm_parameters_element e (b_llm_params sd),
           leaf ''prompt_template'' (b_prompt_template sd),
           Element ''variables'' [] None None (map variable_element (b_variables sd)),
           Element ''runs'' [] None None (map run_element (enumerate 0 (b_runs sd)))],
        Element ''evaluation'' [] None None
          [leaf ''prompt_template'' (b_eval_prompt_template sd),
           Element ''variables'' [] None None (map eval_variable_element (b_eval_variables sd)),
           leaf ''rendered_prompt'' (b_eval_rendered_prompt sd),
           leaf ''output'' (b_eval_output sd)]]"

subsection \<open>Reading and writing the log file\<close>

text \<open>
  The XML library and the file system are parameters.
  \<^item> \<open>et_parse\<close>: the root that \<^verbatim>\<open>ET.parse\<close> returns for a file of this content; \<open>None\<close>
    when it raises.
  \<^item> \<open>to_pretty_xml\<close>: \<^verbatim>\<open>md.parseString(ET.tostring(root, encoding='utf-8')).toprettyxml(indent="  ")\<close>;
    \<open>None\<close> when one of the calls raises.
  \<^item> \<open>files\<close>: the content of the regular file at a path; \<open>makedirs_ok\<close> and \<open>open_ok\<close>:
    whether \<^verbatim>\<open>os.makedirs(dir, exist_ok=True)\<close> and \<^verbatim>\<open>open(path, "w")\<close> return.
\<close>

record xml_lib =
  et_parse :: "string \<Rightarrow> element option"
  to_pretty_xml :: "element \<Rightarrow> string option"

record store =
  files :: "string \<Rightarrow> string option"
  makedirs_ok :: "string \<Rightarrow> bool"
  open_ok :: "string \<Rightarrow> bool"

datatype log_error = Serialize_error | Makedirs_error | Open_error

definition not_slash :: "char \<Rightarrow> bool" where
  "not_slash c = (c \<noteq> CHR ''/'')"

text \<open>
  \<^verbatim>\<open>os.path.dirname\<close> on a POSIX system: the text up to the last slash, without its
  trailing slashes unless it consists of slashes only.
\<close>

definition dirname :: "string \<Rightarrow> string" where
  "dirname p =
     (let head = rev (dropWhile not_slash (rev p))
      in if head \<noteq> [] \<and> \<not> list_all (\<lambda>c. c = CHR ''/'') head
         then rev (dropWhile (\<lambda>c. c = CHR ''/'') (rev head))
         else head)"

definition empty_root :: element where
  "empty_root = Element ''sessions'' [] None None []"

text \<open>
  The root to append to: the parsed root of an existing file, a new \<^verbatim>\<open>sessions\<close>
  element when there is no file or when parsing raises.
\<close>

definition existing_root :: "xml_lib \<Rightarrow> store \<Rightarrow> string \<Rightarrow> element" where
  "existing_root x st log_file =
     (case files st log_file of
        None \<Rightarrow> empty_root
      | Some content \<Rightarrow> (case et_parse x content of Some root \<Rightarrow> root | None \<Rightarrow> empty_root))"

text \<open>
  The end of \<^verbatim>\<open>log_session\<close>: serialise, create the directory, write. The empty
  directory name of a path without a slash makes \<^verbatim>\<open>os.makedirs\<close> raise.
\<close>

definition write_log :: "xml_lib \<Rightarrow> store \<Rightarrow> string \<Rightarrow> element \<Rightarrow> log_error + store" where
  "write_log x st log_file root =
     (case to_pretty_xml x root of
        None \<Rightarrow> Inl Serialize_error
      | Some pretty_xml \<Rightarrow>
          if dirname log_file = [] \<or> \<not> makedirs_ok st (dirname log_file) then Inl Makedirs_error
          else if \<not> open_ok st log_file then Inl Open_error
          else Inr (st\<lparr>files := (files st)(log_file \<mapsto> pretty_xml)\<rparr>))"

definition log_session :: "xml_lib \<Rightarrow> env \<Rightarrow> string \<Rightarrow> store \<Rightarrow> string \<Rightarrow> session_data
    \<Rightarrow> log_error + store" where
  "log_session x e timestamp st log_file sd =
     write_log x st log_file
       (append_child (existing_root x st log_file) (session_element e timestamp sd))"

definition bon_log_session :: "xml_lib \<Rightarrow> env \<Rightarrow> string \<Rightarrow> store \<Rightarrow> string \<Rightarrow> bon_session_data
    \<Rightarrow> log_error + store" where
  "bon_log_session x e timestamp st log_file sd =
     write_log x st log_file
       (append_child (existing_root x st log_file) (bon_session_element e timestamp sd))"

section \<open>Fixed and iterating variables\<close>

text \<open>
  The specification's reading of the expander: a variable either iterates over a list
  of values (a list reference, a directory reference with at least one readable file)
  or is fixed (a literal, a file reference, a directory reference without readable
  files, a results reference in \<^verbatim>\<open>best_of_n.py\<close>). These definitions follow those words;
  the theorems below compare them with \<open>expand_variables\<close>.
\<close>

definition iterating_values :: "env \<Rightarrow> var_spec \<Rightarrow> iter_data option" where
  "iterating_values e spec =
     (case spec of
        List_spec elements \<Rightarrow> Some (map (\<lambda>x. (x, x)) elements)
      | Dir_spec base_path recursive \<Rightarrow>
          (if dir_contents e base_path recursive = [] then None
           else Some (map (\<lambda>(content, path). (PStr content, PStr path))
                        (dir_contents e base_path recursive)))
      | _ \<Rightarrow> None)"

definition fixed_value :: "app \<Rightarrow> env \<Rightarrow> var_spec \<Rightarrow> pyval option" where
  "fixed_value a e spec =
     (case spec of
        Plain s \<Rightarrow> Some (PStr s)
      | File_spec path \<Rightarrow>
          Some (PStr (case read_file e path of
                        Some content \<Rightarrow> content
                      | None \<Rightarrow> ''ERROR: Could not read file '' @ path))
      | Dir_spec base_path recursive \<Rightarrow>
          (if dir_contents e base_path recursive = []
           then Some (PStr (''No files found in '' @ base_path)) else None)
      | Results_spec name \<Rightarrow> (if a = Best_of_n then Some (results_marker name) else None)
      | _ \<Rightarrow> None)"

fun iterative_entries :: "env \<Rightarrow> (string \<times> var_spec) list \<Rightarrow> (string \<times> iter_data) list" where
  "iterative_entries e [] = []"
| "iterative_entries e ((name, spec) # variables) =
     (case iterating_values e spec of
        None \<Rightarrow> iterative_entries e variables
      | Some values \<Rightarrow> (name, values) # iterative_entries e variables)"

fun fixed_entries :: "app \<Rightarrow> env \<Rightarrow> (string \<times> var_spec) list \<Rightarrow> combination" where
  "fixed_entries a e [] = []"
| "fixed_entries a e ((name, spec) # variables) =
     (case fixed_value a e spec of
        None \<Rightarrow> fixed_entries a e variables
      | Some v \<Rightarrow> (name, v) # fixed_entries a e variables)"

section \<open>Templates as text and placeholders\<close>

text \<open>
  The specification's reading of a template: pieces of text without braces and
  placeholders \<^verbatim>\<open>{{name}}\<close> whose name is not empty and has no brace. A placeholder
  renders as the value of the entry of that name that the renderer substitutes, or as
  \<^verbatim>\<open>UNDEFINED_VARIABLE_name\<close> when there is none. These definitions follow those words;
  the theorems below compare them with \<open>render_template\<close>.
\<close>

datatype segment = Text string | Hole string

definition brace_free :: "string \<Rightarrow> bool" where
  "brace_free s = (CHR ''{'' \<notin> set s \<and> CHR ''}'' \<notin> set s)"

fun segment_text :: "segment \<Rightarrow> string" where
  "segment_text (Text t) = t"
| "segment_text (Hole name) = placeholder name"

definition template_of :: "segment list \<Rightarrow> string" where
  "template_of segs = concat (map segment_text segs)"

fun well_formed_segment :: "segment \<Rightarrow> bool" where
  "well_formed_segment (Text t) = brace_free t"
| "well_formed_segment (Hole name) = (name \<noteq> [] \<and> brace_free name)"

definition well_formed :: "segment list \<Rightarrow> bool" where
  "well_formed segs = list_all well_formed_segment segs"

definition binding :: "app \<Rightarrow> combination \<Rightarrow> string \<Rightarrow> pyval option" where
  "binding a variables name = map_of (filter (substituted a) variables) name"

fun rendered_segment :: "app \<Rightarrow> env \<Rightarrow> combination \<Rightarrow> segment \<Rightarrow> string" where
  "rendered_segment a e variables (Text t) = t"
| "rendered_segment a e variables (Hole name) =
     (case binding a variables name of
        Some v \<Rightarrow> py_str e v
      | None \<Rightarrow> ''UNDEFINED_VARIABLE_'' @ name)"

definition clean_entry :: "app \<Rightarrow> env \<Rightarrow> string \<times> pyval \<Rightarrow> bool" where
  "clean_entry a e entry =
     (\<not> substituted a entry \<or> (brace_free (fst entry) \<and> brace_free (py_str e (snd entry))))"

fun fill_hole :: "string \<Rightarrow> string \<Rightarrow> segment \<Rightarrow> segment" where
  "fill_hole k new (Text t) = Text t"
| "fill_hole k new (Hole name) = (if name = k then Text new else Hole name)"

text \<open>
  The steps of the renderer on segments: one placeholder name filled with a text, the
  placeholders that the combination binds, and the remaining ones marked undefined.
\<close>

fun filled :: "app \<Rightarrow> env \<Rightarrow> combination \<Rightarrow> segment \<Rightarrow> segment" where
  "filled a e variables (Text t) = Text t"
| "filled a e variables (Hole name) =
     (case binding a variables name of Some v \<Rightarrow> Text (py_str e v) | None \<Rightarrow> Hole name)"

fun marked :: "string list \<Rightarrow> segment \<Rightarrow> segment" where
  "marked names (Text t) = Text t"
| "marked names (Hole name) =
     (if name \<in> set names then Text (''UNDEFINED_VARIABLE_'' @ name) else Hole name)"

fun hole_names :: "segment list \<Rightarrow> string list" where
  "hole_names [] = []"
| "hole_names (Text t # segs) = hole_names segs"
| "hole_names (Hole name # segs) = name # hole_names segs"

section \<open>A model of the XML library\<close>

text \<open>
  The theorems about \<^verbatim>\<open>log_session\<close> hold for every XML library. To run the logger on
  an example, this section models the three library calls of Python 3.11 that it
  makes: \<^verbatim>\<open>ET.tostring\<close> and \<^verbatim>\<open>ET.parse\<close> of \<^verbatim>\<open>xml.etree.ElementTree\<close>, and
  \<^verbatim>\<open>parseString(...).toprettyxml(indent="  ")\<close> of \<^verbatim>\<open>xml.dom.minidom\<close>. Both parsers
  are the same XML parser followed by a tree builder. The parser is modelled on the
  documents that the logger writes: elements, attributes, character data and
  references; a document with a comment, a processing instruction, a CDATA section, a
  document type declaration or a namespace prefix is reported as a parse error here.
\<close>

subsection \<open>The parser\<close>

datatype node = Elem string "(string \<times> string) list" "node list" | Chars string






























subsection \<open>ElementTree: \<^verbatim>\<open>tostring\<close> and the tree of \<^verbatim>\<open>parse\<close>\<close>





fun leading_text :: "node list \<Rightarrow> string option" where
  "leading_text (Chars d # ns) = Some d"
| "leading_text ns = None"

fun following_text :: "node list \<Rightarrow> string option" where
  "following_text (Chars d # ns) = Some d"
| "following_text ns = None"

fun et_element :: "string \<Rightarrow> (string \<times> string) list \<Rightarrow> node list \<Rightarrow> string option \<Rightarrow> element"
  and et_children :: "node list \<Rightarrow> element list" where
  "et_element n kvs kids tail_text = Element n kvs (leading_text kids) tail_text (et_children kids)"
| "et_children [] = []"
| "et_children (Chars d # ns) = et_children ns"
| "et_children (Elem n kvs kids # ns) = et_element n kvs kids (following_text ns) # et_children ns"


subsection \<open>minidom: \<^verbatim>\<open>toprettyxml\<close>\<close>





section \<open>The sessions of a log document\<close>




section \<open>Worked inputs\<close>

text \<open>
  An environment for the worked inputs: a directory \<^verbatim>\<open>docs\<close> with two readable files
  and one that cannot be read, and an empty directory \<^verbatim>\<open>./empty_folder\<close>. Its JSON
  decoder is \<^verbatim>\<open>json.loads\<close> of Python 3.11 on the texts that the worked inputs decode:
  an unsigned integer literal gives its value, or \<^verbatim>\<open>ValueError\<close> when it has more than
  4300 digits (the default limit of the conversion from text to \<^verbatim>\<open>int\<close>); the other texts
  decoded below are not JSON, and this decoder reports \<^verbatim>\<open>JSONDecodeError\<close> for every text
  that is not such a literal. No worked input prints a float, a list or a dictionary.
\<close>

definition is_digit :: "char \<Rightarrow> bool" where
  "is_digit c = (48 \<le> (of_char c :: nat) \<and> (of_char c :: nat) \<le> 57)"

definition json_loads_integers :: "string \<Rightarrow> json_exception + pyval" where
  "json_loads_integers s =
     (if s \<noteq> [] \<and> list_all is_digit s \<and> (take 1 s \<noteq> ''0'' \<or> length s = 1) then
        (if 4300 < length s then Inl ValueError
         else Inr (PInt (foldl (\<lambda>n c. 10 * n + (int (of_char c) - 48)) 0 s)))
      else Inl JSONDecodeError)"

definition sample_env :: env where
  "sample_env =
     \<lparr>json_loads = json_loads_integers,
      repr_other = (\<lambda>v. []),
      read_file = (\<lambda>p. if p = ''docs/a.txt'' then Some ''alpha''
                        else if p = ''docs/b.txt'' then Some ''beta'' else None),
      walk = (\<lambda>p. if p = ''docs'' then [(''docs'', [''a.txt'', ''b.txt'', ''c.bin''])] else []),
      path_exists = (\<lambda>p. p = ''docs'' \<or> p = ''./empty_folder''),
      isdir = (\<lambda>p. p = ''docs'' \<or> p = ''./empty_folder''),
      isfile = (\<lambda>p. p = ''docs/a.txt'' \<or> p = ''docs/b.txt'' \<or> p = ''docs/c.bin''),
      listdir = (\<lambda>p. if p = ''docs'' then [''a.txt'', ''b.txt'', ''c.bin''] else [])\<rparr>"


definition sample_variables :: "(string \<times> var_spec) list" where
  "sample_variables =
     [(''topic'', Plain ''water''), (''n'', List_spec [PStr ''a'', PStr ''b'']),
      (''d'', Dir_spec ''docs'' False)]"

text \<open>
  The definitions string \<^verbatim>\<open>topic="water", n=$$list(["a","b"])\<close> and the template
  \<^verbatim>\<open>{{topic}}-{{n}}\<close>.
\<close>

definition example_definitions :: string where
  "example_definitions =
     ''topic='' @ double_quote @ ''water'' @ double_quote @ '', n=$$list([''
       @ double_quote @ ''a'' @ double_quote @ '','' @ double_quote @ ''b'' @ double_quote
       @ ''])''"

definition example_template :: string where
  "example_template = ''{{topic}}-{{n}}''"

text \<open>A service whose second request fails while every other request answers.\<close>

definition second_request_fails :: service where
  "second_request_fails =
     \<lparr>construct = None, create = (\<lambda>k. if k = 1 then Inl ''overloaded'' else Inr ''answer'')\<rparr>"













section \<open>The examples of the specification\<close>

lemma example_app3:
  "parse_variable_definitions App3 e example_definitions = Inr [(''topic'', Plain ''water'')]"
  "expand_variables App3 e [(''topic'', Plain ''water'')] = [[(''topic'', PStr ''water'')]]"
  "render_template App3 e example_template [(''topic'', PStr ''water'')]
     = ''water-UNDEFINED_VARIABLE_n''"
  by code_simp+

lemma example_best_of_n:
  "parse_variable_definitions Best_of_n e example_definitions = Inr [(''topic'', Plain ''water'')]"
  "expand_variables Best_of_n e [(''topic'', Plain ''water'')] = [[(''topic'', PStr ''water'')]]"
  "render_template Best_of_n e example_template [(''topic'', PStr ''water'')]
     = ''water-UNDEFINED_VARIABLE_n''"
  by code_simp+

text \<open>
  C1. The example of the specification: the definitions
  \<^verbatim>\<open>topic="water", n=$$list(["a","b"])\<close> with the template \<^verbatim>\<open>{{topic}}-{{n}}\<close> should give
  two combinations, rendered \<^verbatim>\<open>water-a\<close> and \<^verbatim>\<open>water-b\<close>. In both applications the
  value of \<open>n\<close> ends at the first comma, inside the list: it is \<^verbatim>\<open>$$list(["a"\<close>, which
  does not end with a parenthesis, so nothing is bound to \<open>n\<close>. The parser returns the
  binding of \<open>topic\<close> alone, the expander one combination, and the renderer
  \<^verbatim>\<open>water-UNDEFINED_VARIABLE_n\<close>, whatever JSON decoder and file system are given.
\<close>

theorem example_yields_one_undefined_rendering:
  "parse_variable_definitions a e example_definitions = Inr [(''topic'', Plain ''water'')] \<and>
   map_sum id (expand_variables a e) (parse_variable_definitions a e example_definitions)
     = Inr [[(''topic'', PStr ''water'')]] \<and>
   map_sum id (\<lambda>variables. map (render_template a e example_template) (expand_variables a e variables))
       (parse_variable_definitions a e example_definitions)
     = Inr [''water-UNDEFINED_VARIABLE_n'']"
  by (cases a) (simp_all only: example_app3 example_best_of_n list.map map_sum.simps)

text \<open>
  C7. With the variable \<open>outputs\<close> bound to the results reference of tag \<^verbatim>\<open>Output\<close> and
  the prior outputs \<open>x\<close>, \<open>y\<close>, \<open>z\<close>, the resolver builds one block per output, in order,
  numbered from 1, and puts exactly that text in the place of \<^verbatim>\<open>{{outputs}}\<close>.
\<close>

theorem results_reference_example:
  "xml_outputs ''Output'' 1 [''x'', ''y'', ''z'']
     = ''<Output1>\<newline>x\<newline></Output1>\<newline><Output2>\<newline>y\<newline></Output2>\<newline><Output3>\<newline>z\<newline></Output3>\<newline>'' \<and>
   process_special_variables ''{{outputs}}'' [(''outputs'', Results_spec ''Output'')]
       initial_prompt [''x'', ''y'', ''z'']
     = ''<Output1>\<newline>x\<newline></Output1>\<newline><Output2>\<newline>y\<newline></Output2>\<newline><Output3>\<newline>z\<newline></Output3>\<newline>'' \<and>
   process_special_variables ''Compare: {{outputs}}Done.'' [(''outputs'', Results_spec ''Output'')]
       initial_prompt [''x'', ''y'', ''z'']
     = ''Compare: <Output1>\<newline>x\<newline></Output1>\<newline><Output2>\<newline>y\<newline></Output2>\<newline><Output3>\<newline>z\<newline></Output3>\<newline>Done.''"
  by code_simp

text \<open>
  C8. The expander of \<^verbatim>\<open>best_of_n.py\<close> should carry a results reference and an initial
  prompt reference into every combination. It has a branch for \<^verbatim>\<open>'results'\<close> and none
  for \<^verbatim>\<open>'initial_prompt'\<close>: parsing \<^verbatim>\<open>p=$$initial_prompt()\<close> gives the reference, and
  expanding it gives one combination that is empty, while the results reference of
  \<^verbatim>\<open>r=$$results(Output)\<close> is kept.
\<close>

theorem initial_prompt_reference_lost:
  "parse_variable_definitions Best_of_n e ''p=$$initial_prompt()'' = Inr [(''p'', Initial_prompt_spec)] \<and>
   expand_variables Best_of_n e [(''p'', Initial_prompt_spec)] = [[]] \<and>
   expand_variables Best_of_n e [(''r'', Results_spec ''Output'')]
     = [[(''r'', results_marker ''Output'')]]"
  by code_simp

section \<open>The repeated-run loop\<close>

lemma batch_loop_all:
  "(\<And>j. j < n \<Longrightarrow> cr (k + j) = Inr (t (k + j))) \<Longrightarrow>
   batch_loop cr k n acc = (Inr (acc @ map t [k..<k + n]), k + n)"
proof (induction n arbitrary: k acc)
  case 0
  then show ?case by simp
next
  case (Suc n)
  from Suc.prems [of 0] have h: "cr k = Inr (t k)" by simp
  have "batch_loop cr (Suc k) n (acc @ [t k]) = (Inr ((acc @ [t k]) @ map t [Suc k..<Suc k + n]), Suc k + n)"
  proof (rule Suc.IH)
    fix j assume "j < n"
    then show "cr (Suc k + j) = Inr (t (Suc k + j))"
      using Suc.prems [of "Suc j"] by simp
  qed
  then show ?case using h by (simp add: upt_rec)
qed

lemma batch_loop_fails:
  "i < n \<Longrightarrow> cr (k + i) = Inl msg \<Longrightarrow> (\<And>j. j < i \<Longrightarrow> cr (k + j) = Inr (t (k + j))) \<Longrightarrow>
   batch_loop cr k n acc = (Inl msg, Suc (k + i))"
proof (induction n arbitrary: k i acc)
  case 0
  then show ?case by simp
next
  case (Suc n)
  show ?case
  proof (cases i)
    case 0
    with Suc.prems show ?thesis by simp
  next
    case (Suc i')
    from Suc.prems(3) [of 0] Suc have h: "cr k = Inr (t k)" by simp
    have "batch_loop cr (Suc k) n (acc @ [t k]) = (Inl msg, Suc (Suc k + i'))"
    proof (rule Suc.IH)
      show "i' < n" using Suc.prems(1) Suc by simp
      show "cr (Suc k + i') = Inl msg" using Suc.prems(2) Suc by simp
      fix j assume "j < i'"
      then show "cr (Suc k + j) = Inr (t (Suc k + j))"
        using Suc.prems(3) [of "Suc j"] Suc by simp
    qed
    then show ?thesis using h Suc by simp
  qed
qed

text \<open>
  C3 says that in the repeated-run loop a failing request gives an error string for
  that request only. In \<^verbatim>\<open>batch_call_llm\<close> one handler encloses the whole loop: with
  three runs of which the second fails, the first answer is discarded, the third
  request is never issued (two requests were), and all three results are the error
  string.
\<close>

theorem batch_failure_not_isolated:
  "create second_request_fails 0 = Inr ''answer'' \<and>
   create second_request_fails 2 = Inr ''answer'' \<and>
   batch_call_llm second_request_fails 3
     = ([''Error calling LLM: overloaded'', ''Error calling LLM: overloaded'',
         ''Error calling LLM: overloaded''], 2) \<and>
   fst (batch_call_llm second_request_fails 3)
     \<noteq> [''answer'', ''Error calling LLM: overloaded'', ''answer'']"
  by code_simp

text \<open>
  C3 as the code has it. When the client is constructed: if every request answers, the
  result is the answers in request order and \<open>num_runs\<close> requests are issued; if request
  \<open>i\<close> is the first to fail, the loop stops there (\<open>i + 1\<close> requests are issued), the
  answers before it are discarded and the result is \<open>num_runs\<close> copies of the one
  error string \<^verbatim>\<open>Error calling LLM: <message>\<close>.
\<close>

theorem batch_call_llm_all_or_nothing:
  assumes "construct svc = None"
  shows "((\<forall>j < nat n. create svc j = Inr (t j)) \<longrightarrow>
            batch_call_llm svc n = (map t [0..<nat n], nat n)) \<and>
         (i < nat n \<and> create svc i = Inl msg \<and> (\<forall>j < i. create svc j = Inr (t j)) \<longrightarrow>
            batch_call_llm svc n = (replicate (nat n) (error_text msg), Suc i))"
proof (intro conjI impI)
  assume "\<forall>j < nat n. create svc j = Inr (t j)"
  then have "batch_loop (create svc) 0 (nat n) [] = (Inr ([] @ map t [0..<0 + nat n]), 0 + nat n)"
    by (intro batch_loop_all) simp
  with assms show "batch_call_llm svc n = (map t [0..<nat n], nat n)"
    by (simp add: batch_call_llm_def)
next
  assume h: "i < nat n \<and> create svc i = Inl msg \<and> (\<forall>j < i. create svc j = Inr (t j))"
  then have "batch_loop (create svc) 0 (nat n) [] = (Inl msg, Suc (0 + i))"
    by (intro batch_loop_fails [where t = t]) simp_all
  with assms show "batch_call_llm svc n = (replicate (nat n) (error_text msg), Suc i)"
    by (simp add: batch_call_llm_def)
qed

theorem batch_call_llm_all_or_nothing_witness:
  "batch_call_llm \<lparr>construct = None, create = (\<lambda>k. if k = 2 then Inl ''timeout'' else Inr ''ok'')\<rparr> 4
     = (replicate 4 (error_text ''timeout''), 3) \<and>
   batch_call_llm \<lparr>construct = None, create = (\<lambda>k. Inr (str_nat k))\<rparr> 3
     = ([''0'', ''1'', ''2''], 3)"
proof -
  let ?s = "\<lparr>construct = None, create = (\<lambda>k. if k = 2 then Inl ''timeout'' else Inr ''ok'')\<rparr>"
  let ?r = "\<lparr>construct = None, create = (\<lambda>k. Inr (str_nat k))\<rparr>"
  have a: "batch_call_llm ?s 4 = (replicate (nat 4) (error_text ''timeout''), Suc 2)"
    using batch_call_llm_all_or_nothing [of ?s 4 "\<lambda>_. ''ok''" 2 "''timeout''"] by simp
  have b: "batch_call_llm ?r 3 = (map str_nat [0..<nat 3], nat 3)"
    using batch_call_llm_all_or_nothing [of ?r 3 str_nat] by simp
  have c: "map str_nat [0..<nat 3] = [''0'', ''1'', ''2'']" by code_simp
  from a b c show ?thesis by simp
qed

section \<open>The credential and the log\<close>

lemma filter_api_key:
  "filter (\<lambda>(param_name, param_value). param_name \<noteq> ''api_key'') (dict_set params ''api_key'' k)
   = filter (\<lambda>(param_name, param_value). param_name \<noteq> ''api_key'') params"
  unfolding dict_set_def by (induction params) auto

lemma llm_parameters_element_api_key:
  "llm_parameters_element e (dict_set params ''api_key'' k) = llm_parameters_element e params"
  by (simp add: llm_parameters_element_def filter_api_key)

lemma input_element_api_key:
  "input_element e (dict_set params ''api_key'' k) = input_element e params"
  by (rule ext) (simp add: input_element_def llm_parameters_element_api_key split: prod.splits)

text \<open>
  C10. The session element that the logger builds, and with it the document written and
  the result of \<^verbatim>\<open>log_session\<close>, is the same whatever value the run parameters hold
  under \<^verbatim>\<open>api_key\<close>: no element text or attribute is derived from the credential, and
  no child of \<^verbatim>\<open>llm_parameters\<close> is named \<^verbatim>\<open>api_key\<close>. This holds for the logger of
  \<^verbatim>\<open>app3.py\<close> and for that of \<^verbatim>\<open>best_of_n.py\<close>, for any XML library, file system and
  path.
\<close>

theorem credential_never_logged:
  "log_session x e timestamp st log_file (sd\<lparr>s_llm_params := dict_set (s_llm_params sd) ''api_key'' key\<rparr>)
     = log_session x e timestamp st log_file (sd\<lparr>s_llm_params := dict_set (s_llm_params sd) ''api_key'' key'\<rparr>) \<and>
   bon_log_session x e timestamp st log_file (bsd\<lparr>b_llm_params := dict_set (b_llm_params bsd) ''api_key'' key\<rparr>)
     = bon_log_session x e timestamp st log_file (bsd\<lparr>b_llm_params := dict_set (b_llm_params bsd) ''api_key'' key'\<rparr>) \<and>
   ''api_key'' \<notin> tag ` set (children (llm_parameters_element e params))"
proof -
  have "''api_key'' \<notin> tag ` set (children (llm_parameters_element e params))"
    by (auto simp: llm_parameters_element_def leaf_def)
  then show ?thesis
    by (simp add: log_session_def bon_log_session_def session_element_def bon_session_element_def
        input_element_api_key llm_parameters_element_api_key)
qed

section \<open>The expander\<close>

lemma dict_set_fresh: "k \<notin> fst ` set d \<Longrightarrow> dict_set d k v = d @ [(k, v)]"
  unfolding dict_set_def by (induction d) auto

lemma collect_var_eq:
  "collect_var a e (name, spec) (iv, fv) =
     ((case iterating_values e spec of None \<Rightarrow> iv | Some values \<Rightarrow> dict_set iv name values),
      (case fixed_value a e spec of None \<Rightarrow> fv | Some v \<Rightarrow> dict_set fv name v))"
  by (cases spec) (simp_all add: collect_var_def iterating_values_def fixed_value_def Let_def)

lemma iterative_entries_keys:
  "k \<in> fst ` set (iterative_entries e variables) \<Longrightarrow> k \<in> fst ` set variables"
  by (induction variables) (force split: option.splits)+

lemma fixed_entries_keys:
  "k \<in> fst ` set (fixed_entries a e variables) \<Longrightarrow> k \<in> fst ` set variables"
  by (induction variables) (force split: option.splits)+

lemma fixed_entries_distinct:
  "distinct (map fst variables) \<Longrightarrow> distinct (map fst (fixed_entries a e variables))"
proof (induction variables)
  case Nil
  then show ?case by simp
next
  case (Cons entry variables)
  obtain name spec where entry: "entry = (name, spec)" by (cases entry)
  from Cons.prems entry have "name \<notin> fst ` set variables" by simp
  with fixed_entries_keys [of name a e variables] have "name \<notin> fst ` set (fixed_entries a e variables)"
    by blast
  with Cons entry show ?case by (simp split: option.splits)
qed

lemma fold_collect_var:
  assumes "distinct (map fst variables)"
    and "fst ` set iv \<inter> fst ` set variables = {}"
    and "fst ` set fv \<inter> fst ` set variables = {}"
  shows "fold (collect_var a e) variables (iv, fv)
       = (iv @ iterative_entries e variables, fv @ fixed_entries a e variables)"
  using assms
proof (induction variables arbitrary: iv fv)
  case Nil
  then show ?case by simp
next
  case (Cons entry variables)
  obtain name spec where entry: "entry = (name, spec)" by (cases entry)
  from Cons.prems entry have fresh: "name \<notin> fst ` set iv" "name \<notin> fst ` set fv"
    and rest: "name \<notin> fst ` set variables" "distinct (map fst variables)"
    and disj: "fst ` set iv \<inter> fst ` set variables = {}" "fst ` set fv \<inter> fst ` set variables = {}"
    by auto
  define iv' where "iv' = (case iterating_values e spec of None \<Rightarrow> iv | Some values \<Rightarrow> iv @ [(name, values)])"
  define fv' where "fv' = (case fixed_value a e spec of None \<Rightarrow> fv | Some v \<Rightarrow> fv @ [(name, v)])"
  have step: "collect_var a e entry (iv, fv) = (iv', fv')"
    using fresh by (simp add: entry collect_var_eq iv'_def fv'_def dict_set_fresh split: option.splits)
  have "fst ` set iv' \<inter> fst ` set variables = {}" "fst ` set fv' \<inter> fst ` set variables = {}"
    using disj rest by (auto simp: iv'_def fv'_def split: option.splits)
  with Cons.IH [OF rest(2)] have "fold (collect_var a e) variables (iv', fv')
      = (iv' @ iterative_entries e variables, fv' @ fixed_entries a e variables)"
    by blast
  with step show ?case
    by (simp add: entry iv'_def fv'_def split: option.splits)
qed

lemma expand_variables_eq:
  assumes "distinct (map fst variables)"
  shows "expand_variables a e variables
       = map (add_fixed (fixed_entries a e variables))
           (fold add_iterative (iterative_entries e variables) [[]])"
  using fold_collect_var [OF assms, of "[]" "[]" a e]
  by (simp add: expand_variables_def)

lemma length_add_iterative:
  "length (add_iterative (name, values) combinations) = length combinations * length values"
  by (induction combinations) (simp_all add: add_iterative_def)

lemma length_fold_add_iterative:
  "length (fold add_iterative ivs combinations)
     = length combinations * prod_list (map (\<lambda>(name, values). length values) ivs)"
proof (induction ivs arbitrary: combinations)
  case Nil
  then show ?case by simp
next
  case (Cons entry ivs)
  obtain name vals where "entry = (name, vals)" by (cases entry)
  with Cons.IH [of "add_iterative entry combinations"] show ?case
    by (simp add: length_add_iterative mult.assoc)
qed

lemma add_fixed_lookup:
  "distinct (map fst fv) \<Longrightarrow> (k, v) \<in> set fv \<Longrightarrow> dict_get (add_fixed fv combo) k = Some v"
proof (induction fv arbitrary: combo)
  case Nil
  then show ?case by simp
next
  case (Cons entry fv)
  obtain k' v' where entry: "entry = (k', v')" by (cases entry)
  have unfold: "add_fixed (entry # fv) combo = add_fixed fv (dict_set combo k' v')"
    by (simp add: add_fixed_def entry)
  have keep: "k \<notin> fst ` set fv \<Longrightarrow> dict_get (add_fixed fv c) k = dict_get c k" for c
  proof (induction fv arbitrary: c)
    case Nil
    then show ?case by (simp add: add_fixed_def)
  next
    case (Cons x xs)
    then show ?case
      by (cases x) (auto simp: add_fixed_def dict_get_def dict_set_def update_conv')
  qed
  show ?case
  proof (cases "(k, v) \<in> set fv")
    case True
    with Cons show ?thesis by (simp add: unfold)
  next
    case False
    with Cons.prems entry have eq: "k' = k" "v' = v" and fresh: "k \<notin> fst ` set fv" by auto
    have "dict_get (add_fixed fv (dict_set combo k v)) k = dict_get (dict_set combo k v) k"
      using keep [OF fresh] .
    also have "\<dots> = Some v"
      by (simp add: dict_get_def dict_set_def update_conv')
    finally show ?thesis
      by (simp add: unfold eq)
  qed
qed

lemma add_fixed_fresh:
  "distinct (map fst fv) \<Longrightarrow> fst ` set combo \<inter> fst ` set fv = {} \<Longrightarrow> add_fixed fv combo = combo @ fv"
proof (induction fv arbitrary: combo)
  case Nil
  then show ?case by (simp add: add_fixed_def)
next
  case (Cons entry fv)
  obtain k v where entry: "entry = (k, v)" by (cases entry)
  from Cons.prems entry have k: "k \<notin> fst ` set combo" "k \<notin> fst ` set fv" "distinct (map fst fv)"
    and "fst ` set combo \<inter> fst ` set fv = {}" by auto
  then have "fst ` set (combo @ [(k, v)]) \<inter> fst ` set fv = {}" by auto
  with Cons.IH [OF k(3)] have "add_fixed fv (combo @ [(k, v)]) = (combo @ [(k, v)]) @ fv" by blast
  moreover have "add_fixed (entry # fv) combo = add_fixed fv (dict_set combo k v)"
    by (simp add: add_fixed_def entry)
  ultimately show ?case using k(1) by (simp add: dict_set_fresh entry)
qed

lemma plain_is_fixed:
  "(name, Plain s) \<in> set variables \<Longrightarrow> (name, PStr s) \<in> set (fixed_entries a e variables)"
  by (induction variables) (auto simp: fixed_value_def split: option.splits)

lemma empty_dir_is_fixed:
  "(name, Dir_spec path recursive) \<in> set variables \<Longrightarrow> dir_contents e path recursive = [] \<Longrightarrow>
   (name, PStr (''No files found in '' @ path)) \<in> set (fixed_entries a e variables)"
  by (induction variables) (auto simp: fixed_value_def split: option.splits)

text \<open>
  C5. For a parsed mapping (one entry per name), the expander produces as many
  combinations as the product of the sizes of the value lists of the iterating
  variables; every combination holds every fixed entry with its value, in particular
  every literal with its text; and when no variable iterates there is exactly one
  combination, which consists of the fixed entries.
\<close>

theorem expand_variables_product:
  assumes "distinct (map fst variables)"
  shows "length (expand_variables a e variables)
           = prod_list (map (\<lambda>(name, values). length values) (iterative_entries e variables)) \<and>
         (\<forall>combo \<in> set (expand_variables a e variables).
            \<forall>(name, v) \<in> set (fixed_entries a e variables). dict_get combo name = Some v) \<and>
         (\<forall>name s. (name, Plain s) \<in> set variables
            \<longrightarrow> (name, PStr s) \<in> set (fixed_entries a e variables)) \<and>
         (iterative_entries e variables = []
            \<longrightarrow> expand_variables a e variables = [fixed_entries a e variables])"
proof (intro conjI)
  show "length (expand_variables a e variables)
           = prod_list (map (\<lambda>(name, values). length values) (iterative_entries e variables))"
    by (simp add: expand_variables_eq [OF assms] length_fold_add_iterative)
  show "\<forall>combo \<in> set (expand_variables a e variables).
            \<forall>(name, v) \<in> set (fixed_entries a e variables). dict_get combo name = Some v"
    using add_fixed_lookup [OF fixed_entries_distinct [OF assms]]
    by (auto simp: expand_variables_eq [OF assms])
  show "\<forall>name s. (name, Plain s) \<in> set variables
            \<longrightarrow> (name, PStr s) \<in> set (fixed_entries a e variables)"
    by (simp add: plain_is_fixed)
  show "iterative_entries e variables = []
            \<longrightarrow> expand_variables a e variables = [fixed_entries a e variables]"
    using add_fixed_fresh [OF fixed_entries_distinct [OF assms], of "[]"]
    by (simp add: expand_variables_eq [OF assms])
qed

theorem expand_variables_product_witness:
  "length (expand_variables App3 sample_env sample_variables) = 4 \<and>
   list_all (\<lambda>combo. dict_get combo ''topic'' = Some (PStr ''water''))
     (expand_variables App3 sample_env sample_variables) \<and>
   expand_variables Best_of_n sample_env [(''topic'', Plain ''water''), (''r'', Results_spec ''Output'')]
     = [[(''topic'', PStr ''water''), (''r'', results_marker ''Output'')]]"
proof -
  have d: "distinct (map fst sample_variables)"
    by (simp add: sample_variables_def)
  note t = expand_variables_product [OF d, of App3 sample_env]
  have ie: "iterative_entries sample_env sample_variables
      = [(''n'', [(PStr ''a'', PStr ''a''), (PStr ''b'', PStr ''b'')]),
         (''d'', [(PStr ''alpha'', PStr ''docs/a.txt''), (PStr ''beta'', PStr ''docs/b.txt'')])]"
    by code_simp
  have plain: "(''topic'', Plain ''water'') \<in> set sample_variables"
    by (simp add: sample_variables_def)
  from t ie have len: "length (expand_variables App3 sample_env sample_variables) = 4"
    by simp
  from t plain have "(''topic'', PStr ''water'') \<in> set (fixed_entries App3 sample_env sample_variables)"
    by blast
  with t have "\<forall>combo \<in> set (expand_variables App3 sample_env sample_variables).
      dict_get combo ''topic'' = Some (PStr ''water'')"
    by fast
  then have all: "list_all (\<lambda>combo. dict_get combo ''topic'' = Some (PStr ''water''))
      (expand_variables App3 sample_env sample_variables)"
    by (simp add: list_all_iff)
  let ?vs = "[(''topic'', Plain ''water''), (''r'', Results_spec ''Output'')]"
  have d2: "distinct (map fst ?vs)" by simp
  have ie2: "iterative_entries sample_env ?vs = []" by code_simp
  have fe2: "fixed_entries Best_of_n sample_env ?vs
      = [(''topic'', PStr ''water''), (''r'', results_marker ''Output'')]"
    by code_simp
  from expand_variables_product [OF d2, of Best_of_n sample_env] ie2 fe2
  have "expand_variables Best_of_n sample_env ?vs
      = [[(''topic'', PStr ''water''), (''r'', results_marker ''Output'')]]"
    by simp
  with len all show ?thesis by simp
qed

text \<open>
  C9. A directory reference whose list of readable file contents is empty becomes the
  fixed value \<^verbatim>\<open>No files found in <path>\<close> in every combination; with no iterating
  variable exactly one combination is produced, and the reference alone expands to the
  single combination that binds the name to that string.
\<close>

theorem empty_directory_degrades:
  assumes "distinct (map fst variables)"
    and "(name, Dir_spec path recursive) \<in> set variables"
    and "dir_contents e path recursive = []"
  shows "(\<forall>combo \<in> set (expand_variables a e variables).
            dict_get combo name = Some (PStr (''No files found in '' @ path))) \<and>
         (iterative_entries e variables = [] \<longrightarrow> length (expand_variables a e variables) = 1) \<and>
         expand_variables a e [(name, Dir_spec path recursive)]
           = [[(name, PStr (''No files found in '' @ path))]]"
proof (intro conjI)
  show "\<forall>combo \<in> set (expand_variables a e variables).
            dict_get combo name = Some (PStr (''No files found in '' @ path))"
    using add_fixed_lookup [OF fixed_entries_distinct [OF assms(1)] empty_dir_is_fixed [OF assms(2,3)]]
    by (auto simp: expand_variables_eq [OF assms(1)])
  show "iterative_entries e variables = [] \<longrightarrow> length (expand_variables a e variables) = 1"
    by (simp add: expand_variables_eq [OF assms(1)])
  show "expand_variables a e [(name, Dir_spec path recursive)]
           = [[(name, PStr (''No files found in '' @ path))]]"
    using assms(3)
    by (simp add: expand_variables_def collect_var_def dict_set_def add_fixed_def)
qed

theorem empty_directory_degrades_witness:
  "map_sum id (expand_variables App3 sample_env)
       (parse_variable_definitions App3 sample_env ''d=$$dir(./empty_folder)'')
     = Inr [[(''d'', PStr ''No files found in ./empty_folder'')]] \<and>
   list_all (\<lambda>combo. dict_get combo ''d'' = Some (PStr ''No files found in ./empty_folder''))
     (expand_variables App3 sample_env
        [(''n'', List_spec [PStr ''a'', PStr ''b'']), (''d'', Dir_spec ''./empty_folder'' False)]) \<and>
   length (expand_variables App3 sample_env
        [(''t'', Plain ''x''), (''d'', Dir_spec ''./empty_folder'' False)]) = 1"
proof -
  have p: "parse_variable_definitions App3 sample_env ''d=$$dir(./empty_folder)''
      = Inr [(''d'', Dir_spec ''./empty_folder'' False)]"
    by code_simp
  have c: "dir_contents sample_env ''./empty_folder'' False = []"
    by code_simp
  let ?v1 = "[(''d'', Dir_spec ''./empty_folder'' False)]"
  let ?v2 = "[(''n'', List_spec [PStr ''a'', PStr ''b'']), (''d'', Dir_spec ''./empty_folder'' False)]"
  let ?v3 = "[(''t'', Plain ''x''), (''d'', Dir_spec ''./empty_folder'' False)]"
  have "expand_variables App3 sample_env ?v1 = [[(''d'', PStr ''No files found in ./empty_folder'')]]"
    using empty_directory_degrades [of ?v1 "''d''" "''./empty_folder''" False sample_env App3] c
    by simp
  moreover have "\<forall>combo \<in> set (expand_variables App3 sample_env ?v2).
      dict_get combo ''d'' = Some (PStr ''No files found in ./empty_folder'')"
    using empty_directory_degrades [of ?v2 "''d''" "''./empty_folder''" False sample_env App3] c
    by simp
  moreover have "iterative_entries sample_env ?v3 = []"
    using c by (simp add: iterating_values_def)
  then have "length (expand_variables App3 sample_env ?v3) = 1"
    using empty_directory_degrades [of ?v3 "''d''" "''./empty_folder''" False sample_env App3] c
    by simp
  ultimately show ?thesis
    by (simp add: p list_all_iff)
qed

section \<open>The parser\<close>

lemma parse_matches_distinct:
  "distinct (map fst variables) \<Longrightarrow> parse_matches a e ms variables = Inr variables'
     \<Longrightarrow> distinct (map fst variables')"
proof (induction ms arbitrary: variables)
  case Nil
  then show ?case by simp
next
  case (Cons m ms)
  from Cons.prems(2) obtain vs where m: "parse_match a e m variables = Inr vs"
    and rest: "parse_matches a e ms vs = Inr variables'"
    by (auto split: sum.splits)
  from m Cons.prems(1) have "distinct (map fst vs)"
    by (cases m) (auto simp: parse_match_def dict_set_def distinct_update split: sum.splits option.splits)
  with Cons.IH rest show ?case by blast
qed

lemma parse_variable_definitions_distinct:
  "parse_variable_definitions a e var_definitions = Inr variables \<Longrightarrow> distinct (map fst variables)"
  using parse_matches_distinct [of "[]"] by (simp add: parse_variable_definitions_def)














section \<open>The renderer\<close>

lemma replace_skip:
  "c \<noteq> CHR ''{'' \<Longrightarrow> replace (c # s) (placeholder k) new = c # replace s (placeholder k) new"
  by (simp add: placeholder_def)

lemma replace_skip2:
  "c2 \<noteq> CHR ''{'' \<Longrightarrow>
   replace (c # c2 # s) (placeholder k) new = c # replace (c2 # s) (placeholder k) new"
  by (simp add: placeholder_def)

lemma replace_text:
  "CHR ''{'' \<notin> set t \<Longrightarrow> replace (t @ s) (placeholder k) new = t @ replace s (placeholder k) new"
proof (induction t)
  case Nil
  then show ?case by simp
next
  case (Cons c t)
  then have "c \<noteq> CHR ''{''" by auto
  with Cons show ?case by (simp add: replace_skip del: replace.simps)
qed

lemma replace_same_hole:
  "replace (placeholder k @ s) (placeholder k) new = new @ replace s (placeholder k) new"
  by (simp add: placeholder_def)

lemma name_before_close:
  assumes "CHR ''}'' \<notin> set k" "CHR ''}'' \<notin> set n"
    and "prefix (k @ CHR ''}'' # x) (n @ CHR ''}'' # y)"
  shows "k = n"
proof -
  from assms(3) obtain z where eq: "n @ CHR ''}'' # y = k @ CHR ''}'' # (x @ z)"
    by (auto simp: prefix_def)
  have "takeWhile not_close (n @ CHR ''}'' # y) = n"
    using assms(2) by (auto simp: takeWhile_tail not_close_def)
  moreover have "takeWhile not_close (k @ CHR ''}'' # (x @ z)) = k"
    using assms(1) by (auto simp: takeWhile_tail not_close_def)
  ultimately show ?thesis using eq by simp
qed

lemma replace_other_hole:
  assumes "n \<noteq> k" "n \<noteq> []" "brace_free n" "brace_free k"
  shows "replace (placeholder n @ s) (placeholder k) new
       = placeholder n @ replace s (placeholder k) new"
proof -
  obtain c n' where n: "n = c # n'" using assms(2) by (cases n) auto
  from assms(3) n have c: "c \<noteq> CHR ''{''" by (auto simp: brace_free_def)
  have nomatch: "\<not> prefix (placeholder k) (placeholder n @ s)"
  proof
    assume "prefix (placeholder k) (placeholder n @ s)"
    then have "prefix (k @ CHR ''}'' # ''}'') (n @ CHR ''}'' # (CHR ''}'' # s))"
      by (simp add: placeholder_def)
    with assms(3,4) have "k = n"
      by (intro name_before_close) (auto simp: brace_free_def)
    with assms(1) show False by simp
  qed
  have "replace (placeholder n @ s) (placeholder k) new
      = CHR ''{'' # replace (CHR ''{'' # n @ ''}}'' @ s) (placeholder k) new"
    using nomatch by (simp add: placeholder_def)
  also have "replace (CHR ''{'' # n @ ''}}'' @ s) (placeholder k) new
      = CHR ''{'' # replace (n @ ''}}'' @ s) (placeholder k) new"
    using replace_skip2 [OF c, of "CHR ''{''" "n' @ ''}}'' @ s" k new] by (simp add: n)
  also have "replace (n @ ''}}'' @ s) (placeholder k) new = n @ replace (''}}'' @ s) (placeholder k) new"
    using assms(3) by (intro replace_text) (simp add: brace_free_def)
  also have "replace (''}}'' @ s) (placeholder k) new = ''}}'' @ replace s (placeholder k) new"
    by (intro replace_text) simp
  finally show ?thesis by (simp add: placeholder_def)
qed

lemma replace_template:
  assumes "well_formed segs" "brace_free k"
  shows "replace (template_of segs) (placeholder k) new = template_of (map (fill_hole k new) segs)"
  using assms(1)
proof (induction segs)
  case Nil
  then show ?case by (simp add: template_of_def placeholder_def)
next
  case (Cons seg segs)
  then have IH: "replace (template_of segs) (placeholder k) new = template_of (map (fill_hole k new) segs)"
    and wf: "well_formed_segment seg"
    by (simp_all add: well_formed_def)
  show ?case
  proof (cases seg)
    case (Text t)
    with wf have "CHR ''{'' \<notin> set t" by (simp add: brace_free_def)
    then show ?thesis
      using IH Text by (simp add: template_of_def replace_text del: replace.simps)
  next
    case (Hole n)
    show ?thesis
    proof (cases "n = k")
      case True
      then show ?thesis
        using IH Hole replace_same_hole [of k "template_of segs" new]
        by (simp add: template_of_def del: replace.simps)
    next
      case False
      with wf Hole assms(2) have "replace (placeholder n @ template_of segs) (placeholder k) new
          = placeholder n @ replace (template_of segs) (placeholder k) new"
        by (intro replace_other_hole) simp_all
      then show ?thesis
        using IH Hole False by (simp add: template_of_def del: replace.simps)
    qed
  qed
qed

lemma well_formed_fill:
  "well_formed segs \<Longrightarrow> brace_free new \<Longrightarrow> well_formed (map (fill_hole k new) segs)"
proof (induction segs)
  case Nil
  then show ?case by (simp add: well_formed_def)
next
  case (Cons seg segs)
  then show ?case by (cases seg) (auto simp: well_formed_def)
qed

lemma binding_Cons:
  "binding a (entry # variables) name =
     (if substituted a entry \<and> fst entry = name then Some (snd entry) else binding a variables name)"
  by (cases entry) (auto simp: binding_def)

lemma filled_step:
  assumes "substituted a entry"
  shows "filled a e variables (fill_hole (fst entry) (py_str e (snd entry)) seg)
       = filled a e (entry # variables) seg"
  using assms by (cases seg) (auto simp: binding_Cons)

lemma filled_skip:
  "\<not> substituted a entry \<Longrightarrow> filled a e (entry # variables) seg = filled a e variables seg"
  by (cases seg) (auto simp: binding_Cons)

lemma fold_substitute_var:
  assumes "well_formed segs" "list_all (clean_entry a e) variables"
  shows "fold (substitute_var a e) variables (template_of segs)
           = template_of (map (filled a e variables) segs) \<and>
         well_formed (map (filled a e variables) segs)"
  using assms
proof (induction variables arbitrary: segs)
  case Nil
  have "map (filled a e []) segs = segs"
    by (rule map_idI) (rename_tac seg, case_tac seg, simp_all add: binding_def)
  with Nil show ?case by simp
next
  case (Cons entry variables)
  show ?case
  proof (cases "substituted a entry")
    case True
    let ?segs = "map (fill_hole (fst entry) (py_str e (snd entry))) segs"
    from Cons.prems True have clean: "brace_free (fst entry)" "brace_free (py_str e (snd entry))"
      by (simp_all add: clean_entry_def)
    have step: "substitute_var a e entry (template_of segs) = template_of ?segs"
      using True replace_template [OF Cons.prems(1) clean(1)] by (simp add: substitute_var_def)
    have wf: "well_formed ?segs"
      using Cons.prems(1) clean(2) by (rule well_formed_fill)
    from Cons.prems have "list_all (clean_entry a e) variables" by simp
    note IH = Cons.IH [OF wf this]
    have eq: "map (filled a e variables) ?segs = map (filled a e (entry # variables)) segs"
      by (simp add: filled_step [OF True])
    have "fold (substitute_var a e) (entry # variables) (template_of segs)
        = fold (substitute_var a e) variables (template_of ?segs)"
      by (simp add: step)
    with IH [unfolded eq] show ?thesis by simp
  next
    case False
    from Cons.prems have "list_all (clean_entry a e) variables" by simp
    from Cons.IH [OF Cons.prems(1) this] False show ?thesis
      by (simp add: substitute_var_def filled_skip)
  qed
qed

lemma match_placeholder_not_open:
  "c \<noteq> CHR ''{'' \<Longrightarrow> match_placeholder (c # s) = None"
  by (simp add: match_placeholder_def)

lemma findall_text:
  "CHR ''{'' \<notin> set t \<Longrightarrow> findall_placeholders (t @ s) = findall_placeholders s"
  by (induction t) (auto simp: match_placeholder_not_open)

lemma match_placeholder_hole:
  assumes "n \<noteq> []" "CHR ''}'' \<notin> set n"
  shows "match_placeholder (placeholder n @ s) = Some (n, s)"
proof -
  have "takeWhile not_close (n @ CHR ''}'' # CHR ''}'' # s) = n"
    using assms(2) by (auto simp: takeWhile_tail not_close_def)
  moreover have "dropWhile not_close (n @ CHR ''}'' # CHR ''}'' # s) = CHR ''}'' # CHR ''}'' # s"
    using assms(2) by (auto simp: dropWhile_append3 not_close_def)
  ultimately show ?thesis
    using assms(1) by (simp add: match_placeholder_def placeholder_def Let_def)
qed

lemma findall_hole:
  assumes "n \<noteq> []" "CHR ''}'' \<notin> set n"
  shows "findall_placeholders (placeholder n @ s) = n # findall_placeholders s"
proof -
  have "placeholder n @ s = CHR ''{'' # (CHR ''{'' # n @ ''}}'' @ s)"
    by (simp add: placeholder_def)
  then have "findall_placeholders (placeholder n @ s)
      = (case match_placeholder (placeholder n @ s) of
           None \<Rightarrow> findall_placeholders (CHR ''{'' # n @ ''}}'' @ s)
         | Some (var, rest) \<Rightarrow> var # findall_placeholders rest)"
    by (metis findall_placeholders.simps(2))
  then show ?thesis
    by (simp add: match_placeholder_hole [OF assms])
qed

lemma findall_template:
  "well_formed segs \<Longrightarrow> findall_placeholders (template_of segs) = hole_names segs"
proof (induction segs rule: hole_names.induct)
  case 1
  then show ?case by (simp add: template_of_def)
next
  case (2 t segs)
  then show ?case
    by (simp add: template_of_def well_formed_def brace_free_def findall_text)
next
  case (3 name segs)
  then show ?case
    using findall_hole [of name "template_of segs"]
    by (simp add: template_of_def well_formed_def brace_free_def)
qed

lemma hole_names_brace_free:
  "well_formed segs \<Longrightarrow> list_all brace_free (hole_names segs)"
  by (induction segs rule: hole_names.induct) (simp_all add: well_formed_def)

lemma marked_step:
  "marked names (fill_hole n (''UNDEFINED_VARIABLE_'' @ n) seg) = marked (n # names) seg"
  by (cases seg) auto

lemma fold_mark_undefined:
  assumes "well_formed segs" "list_all brace_free names"
  shows "fold mark_undefined names (template_of segs) = template_of (map (marked names) segs)"
  using assms
proof (induction names arbitrary: segs)
  case Nil
  have "map (marked []) segs = segs"
    by (rule map_idI) (rename_tac seg, case_tac seg, simp_all)
  then show ?case by simp
next
  case (Cons n names)
  let ?segs = "map (fill_hole n (''UNDEFINED_VARIABLE_'' @ n)) segs"
  from Cons.prems have n: "brace_free n" and rest: "list_all brace_free names" by simp_all
  have step: "mark_undefined n (template_of segs) = template_of ?segs"
    using replace_template [OF Cons.prems(1) n] by (simp add: mark_undefined_def)
  have "brace_free (''UNDEFINED_VARIABLE_'' @ n)"
    using n by (simp add: brace_free_def)
  with Cons.prems(1) have "well_formed ?segs" by (rule well_formed_fill)
  note IH = Cons.IH [OF this rest]
  have eq: "map (marked names) ?segs = map (marked (n # names)) segs"
    by (simp only: map_map o_def marked_step)
  have "fold mark_undefined (n # names) (template_of segs)
      = fold mark_undefined names (template_of ?segs)"
    by (simp add: step)
  with IH [unfolded eq] show ?case by simp
qed

lemma marked_all:
  "seg \<in> set segs \<Longrightarrow>
   segment_text (marked (hole_names segs) seg)
     = (case seg of Text t \<Rightarrow> t | Hole name \<Rightarrow> ''UNDEFINED_VARIABLE_'' @ name)"
proof -
  have "Hole name \<in> set segs \<Longrightarrow> name \<in> set (hole_names segs)" for name
    by (induction segs rule: hole_names.induct) auto
  then show "seg \<in> set segs \<Longrightarrow> ?thesis"
    by (cases seg) auto
qed

lemma rendered_segment_filled:
  "(case filled a e variables seg of Text t \<Rightarrow> t | Hole name \<Rightarrow> ''UNDEFINED_VARIABLE_'' @ name)
     = rendered_segment a e variables seg"
  by (cases seg) (auto split: option.splits)

lemma render_template_segments:
  assumes "well_formed segs" "list_all (clean_entry a e) variables"
  shows "render_template a e (template_of segs) variables
       = concat (map (rendered_segment a e variables) segs)"
proof -
  let ?filled = "map (filled a e variables) segs"
  from fold_substitute_var [OF assms] have
    sub: "fold (substitute_var a e) variables (template_of segs) = template_of ?filled"
    and wf: "well_formed ?filled"
    by simp_all
  have "render_template a e (template_of segs) variables
      = fold mark_undefined (hole_names ?filled) (template_of ?filled)"
    by (simp add: render_template_def sub findall_template [OF wf])
  also have "\<dots> = template_of (map (marked (hole_names ?filled)) ?filled)"
    using wf hole_names_brace_free [OF wf] by (rule fold_mark_undefined)
  also have "\<dots> = concat (map (\<lambda>seg. case seg of Text t \<Rightarrow> t
      | Hole name \<Rightarrow> ''UNDEFINED_VARIABLE_'' @ name) ?filled)"
    unfolding template_of_def map_map
    by (rule arg_cong [where f = concat], rule map_cong [OF refl]) (simp add: marked_all)
  also have "\<dots> = concat (map (rendered_segment a e variables) segs)"
    by (simp add: o_def rendered_segment_filled)
  finally show ?thesis .
qed

lemma contains_set: "contains s sub \<Longrightarrow> set sub \<subseteq> set s"
proof (induction s)
  case Nil
  then show ?case by simp
next
  case (Cons c s)
  from Cons.prems have "prefix sub (c # s) \<or> contains s sub" by simp
  then show ?case
  proof
    assume "prefix sub (c # s)"
    then show ?thesis by (rule set_mono_prefix)
  next
    assume "contains s sub"
    with Cons.IH show ?thesis by auto
  qed
qed

lemma binding_clean:
  assumes "list_all (clean_entry a e) variables" "binding a variables name = Some v"
  shows "brace_free (py_str e v)"
proof -
  from assms(2) have "(name, v) \<in> set (filter (substituted a) variables)"
    unfolding binding_def by (rule map_of_SomeD)
  with assms(1) show ?thesis
    by (auto simp: list_all_iff clean_entry_def)
qed

lemma rendered_segment_brace_free:
  assumes "well_formed_segment seg" "list_all (clean_entry a e) variables"
  shows "brace_free (rendered_segment a e variables seg)"
proof (cases seg)
  case (Text t)
  with assms show ?thesis by simp
next
  case (Hole name)
  show ?thesis
  proof (cases "binding a variables name")
    case None
    with Hole assms(1) show ?thesis by (simp add: brace_free_def)
  next
    case (Some v)
    with Hole binding_clean [OF assms(2) Some] show ?thesis by simp
  qed
qed

text \<open>
  C6 says that when every placeholder of the template is a key of the combination the
  rendered text has no \<^verbatim>\<open>{{\<close>. The renderer copies values as they are: the template
  \<^verbatim>\<open>{{a}}\<close> with \<open>a\<close> bound to the text \<^verbatim>\<open>{{\<close> renders as \<^verbatim>\<open>{{\<close>, in both applications.
\<close>

theorem rendered_text_keeps_braces:
  "render_template App3 sample_env ''{{a}}'' [(''a'', PStr ''{{'')] = ''{{'' \<and>
   render_template Best_of_n sample_env ''{{a}}'' [(''a'', PStr ''{{'')] = ''{{'' \<and>
   contains (render_template App3 sample_env ''{{a}}'' [(''a'', PStr ''{{'')]) ''{{''"
  by code_simp

text \<open>
  C6 for templates and values without stray braces. Let the template consist of
  brace-free text and placeholders with non-empty brace-free names, and let every
  entry that the renderer substitutes (not a \<^verbatim>\<open>_path\<close> key, and in \<^verbatim>\<open>best_of_n.py\<close> not
  a dictionary) have a brace-free key and a brace-free value text. Then the rendered
  text is the template with every occurrence of a placeholder replaced by the value
  of its entry, or by exactly \<^verbatim>\<open>UNDEFINED_VARIABLE_name\<close> when no such entry exists, with
  the text between placeholders unchanged; and it contains no \<^verbatim>\<open>{{\<close>.
\<close>

theorem render_template_well_formed:
  assumes "well_formed segs" "list_all (clean_entry a e) variables"
  shows "render_template a e (template_of segs) variables
           = concat (map (rendered_segment a e variables) segs) \<and>
         \<not> contains (render_template a e (template_of segs) variables) ''{{''"
proof -
  have "CHR ''{'' \<notin> set (concat (map (rendered_segment a e variables) segs))"
    using assms rendered_segment_brace_free [where a = a and e = e and variables = variables]
    by (fastforce simp: well_formed_def list_all_iff brace_free_def)
  then have "\<not> contains (concat (map (rendered_segment a e variables) segs)) ''{{''"
    by (auto dest: contains_set)
  then show ?thesis
    by (simp add: render_template_segments [OF assms])
qed

theorem render_template_well_formed_witness:
  "render_template App3 sample_env ''{{topic}}-{{n}}''
     [(''n'', PStr ''a''), (''n_path'', PStr ''a''), (''topic'', PStr ''water'')] = ''water-a'' \<and>
   render_template Best_of_n sample_env ''{{topic}}-{{n}} {{n_path}}{{r}}''
     [(''topic'', PStr ''water''), (''n_path'', PStr ''a''), (''r'', results_marker ''Output'')]
     = ''water-UNDEFINED_VARIABLE_n UNDEFINED_VARIABLE_n_pathUNDEFINED_VARIABLE_r''"
proof -
  let ?s1 = "[Hole ''topic'', Text ''-'', Hole ''n'']"
  let ?v1 = "[(''n'', PStr ''a''), (''n_path'', PStr ''a''), (''topic'', PStr ''water'')]"
  let ?s2 = "[Hole ''topic'', Text ''-'', Hole ''n'', Text '' '', Hole ''n_path'', Hole ''r'']"
  let ?v2 = "[(''topic'', PStr ''water''), (''n_path'', PStr ''a''), (''r'', results_marker ''Output'')]"
  have w1: "well_formed ?s1" and w2: "well_formed ?s2" by code_simp+
  have c1: "list_all (clean_entry App3 sample_env) ?v1"
    and c2: "list_all (clean_entry Best_of_n sample_env) ?v2" by code_simp+
  have t1: "template_of ?s1 = ''{{topic}}-{{n}}''"
    and t2: "template_of ?s2 = ''{{topic}}-{{n}} {{n_path}}{{r}}''" by code_simp+
  have r1: "concat (map (rendered_segment App3 sample_env ?v1) ?s1) = ''water-a''"
    and r2: "concat (map (rendered_segment Best_of_n sample_env ?v2) ?s2)
      = ''water-UNDEFINED_VARIABLE_n UNDEFINED_VARIABLE_n_pathUNDEFINED_VARIABLE_r''" by code_simp+
  from render_template_well_formed [OF w1 c1] render_template_well_formed [OF w2 c2]
  show ?thesis unfolding t1 t2 r1 r2 by simp
qed

section \<open>The log file\<close>























end
